theory Spec2Isabelle
  imports Main "HOL-Library.Sublist" "HOL-Library.List_Lexorder" "HOL-Library.AList"
begin

section \<open>Python strings\<close>

text \<open>
  A Python \<open>str\<close> is modelled as a \<open>string\<close>, one \<open>char\<close> per character. The
  character classes below are the ASCII ones: a character above 127 is no digit, no
  white space and has no case.
\<close>

definition NL :: char where
  "NL = CHR 0x0A"

text \<open>\<open>str.isspace\<close> on one ASCII character: tab, line feed, vertical tab, form feed,
  carriage return, the four separators 0x1C..0x1F and the space.\<close>

definition is_space :: "char \<Rightarrow> bool" where
  "is_space c \<longleftrightarrow> (let n = (of_char c :: nat) in (9 \<le> n \<and> n \<le> 13) \<or> (28 \<le> n \<and> n \<le> 32))"

definition is_digit :: "char \<Rightarrow> bool" where
  "is_digit c \<longleftrightarrow> (let n = (of_char c :: nat) in 48 \<le> n \<and> n \<le> 57)"

definition digit_val :: "char \<Rightarrow> nat" where
  "digit_val c = of_char c - 48"

text \<open>\<open>s.strip()\<close>\<close>

definition strip :: "string \<Rightarrow> string" where
  "strip s = rev (dropWhile is_space (rev (dropWhile is_space s)))"

text \<open>\<open>s.split(sep)\<close> for a separator of one character: never the empty list.\<close>

primrec split_on :: "char \<Rightarrow> string \<Rightarrow> string list" where
  "split_on sep [] = [[]]"
| "split_on sep (c # cs) =
     (if c = sep then [] # split_on sep cs
      else (c # hd (split_on sep cs)) # tl (split_on sep cs))"

text \<open>\<open>sub in s\<close>\<close>

primrec contains :: "string \<Rightarrow> string \<Rightarrow> bool" where
  "contains sub [] = (sub = [])"
| "contains sub (c # cs) = (prefix sub (c # cs) \<or> contains sub cs)"

text \<open>\<open>s.startswith(p)\<close>, also \<open>re.match\<close> of a literal pattern anchored by \<open>^\<close>.\<close>

definition startswith :: "string \<Rightarrow> string \<Rightarrow> bool" where
  "startswith s p = prefix p s"

text \<open>\<open>s.lower()\<close>\<close>

definition lower_char :: "char \<Rightarrow> char" where
  "lower_char c =
     (let n = (of_char c :: nat) in if 65 \<le> n \<and> n \<le> 90 then char_of (n + 32) else c)"

definition lower :: "string \<Rightarrow> string" where
  "lower s = map lower_char s"

text \<open>The decimal value of a string of digits.\<close>

definition nat_of_digits :: "string \<Rightarrow> nat" where
  "nat_of_digits ds = foldl (\<lambda>n c. 10 * n + digit_val c) 0 ds"

text \<open>
  \<open>int(s)\<close> in base 10: white space around is dropped, one sign is allowed, and
  single underscores may separate digits. Anything else is a \<open>ValueError\<close>, here
  \<open>None\<close>. Python's integers are unbounded, and so are these; the interpreter's
  configurable limit on the number of digits that \<open>int\<close> converts is not modelled.
\<close>

fun digit_groups_ok :: "bool \<Rightarrow> string \<Rightarrow> bool" where
  "digit_groups_ok after_digit [] = after_digit"
| "digit_groups_ok after_digit (c # cs) =
     (if is_digit c then digit_groups_ok True cs
      else c = CHR ''_'' \<and> after_digit \<and> cs \<noteq> [] \<and> is_digit (hd cs) \<and> digit_groups_ok False cs)"

definition py_int :: "string \<Rightarrow> int option" where
  "py_int s =
     (let t = strip s;
          neg = (t \<noteq> [] \<and> hd t = CHR ''-'');
          body = (if t \<noteq> [] \<and> (hd t = CHR ''-'' \<or> hd t = CHR ''+'') then tl t else t)
      in if digit_groups_ok False body
         then Some ((if neg then - 1 else 1) * int (nat_of_digits (filter (\<lambda>c. c \<noteq> CHR ''_'') body)))
         else None)"

text \<open>\<open>str(n)\<close> for an integer, as an f-string formats it.\<close>

fun str_nat :: "nat \<Rightarrow> string" where
  "str_nat n =
     (if n < 10 then [''0123456789'' ! n]
      else str_nat (n div 10) @ [''0123456789'' ! (n mod 10)])"

declare str_nat.simps [simp del]

definition str_int :: "int \<Rightarrow> string" where
  "str_int i = (if i < 0 then CHR ''-'' # str_nat (nat (- i)) else str_nat (nat i))"

section \<open>Python values and exceptions\<close>

text \<open>
  The values a YAML document loads to and JSON can write: the cases of the annotation of
  \<open>VintageStoryConfig.config\<close>. A \<open>dict\<close> is an association list in insertion order,
  read with \<open>map_of\<close> and written with \<open>AList.update\<close>, which replaces the value of a
  key in place and appends a new key, as Python does. A float is kept as its text; no
  operation of the program inspects one. Values are compared by content: two keys of the
  defaults document never share one object.
\<close>

datatype pyval =
    PyNone
  | PyBool bool
  | PyInt int
  | PyFloat string
  | PyStr string
  | PyList "pyval list"
  | PyDict "(string \<times> pyval) list"

datatype py_error =
    KeyError string
  | TypeError
  | AttributeError
  | ValueError
  | FileNotFoundError
  | FileExistsError
  | IsADirectoryError
  | NotADirectoryError
  | OSError
  | YAMLError

section \<open>semver.py\<close>

subsection \<open>\<open>get_commit_message\<close>\<close>

text \<open>
  The git repository is a parameter: \<open>git_show h\<close> is the standard output of
  \<open>git show -s --format=%s%n%b h\<close>, or \<open>None\<close> when the command fails.
  \<open>stdout.split('\n', 1)\<close> cuts at the first line feed.
\<close>

definition get_commit_message :: "(string \<Rightarrow> string option) \<Rightarrow> string \<Rightarrow> string \<times> string" where
  "get_commit_message git_show commit_hash =
     (case git_show commit_hash of
        None \<Rightarrow> ([], [])
      | Some out \<Rightarrow>
          (takeWhile (\<lambda>c. c \<noteq> NL) out,
           (case dropWhile (\<lambda>c. c \<noteq> NL) out of [] \<Rightarrow> [] | _ # body \<Rightarrow> body)))"

subsection \<open>\<open>determine_bump\<close>\<close>



text \<open>
  The loop over the commits. The state is \<open>has_minor\<close> and the list of the commits whose
  message was fetched so far, latest first; the result adds \<open>has_major\<close>. The
  \<open>break\<close> is the branch that does not recurse.
\<close>

fun bump_loop :: "(string \<Rightarrow> string option) \<Rightarrow> string list \<Rightarrow> bool \<Rightarrow> string list
    \<Rightarrow> bool \<times> bool \<times> string list" where
  "bump_loop git_show [] has_minor fetched = (False, has_minor, fetched)"
| "bump_loop git_show (commit_hash # commits) has_minor fetched =
     (let m = get_commit_message git_show commit_hash in
      if contains ''BREAKING CHANGE:'' (fst m) \<or> contains ''BREAKING CHANGE:'' (snd m)
      then (True, has_minor, commit_hash # fetched)
      else if startswith (fst m) ''feat!:'' \<or> startswith (fst m) ''fix!:''
      then (True, has_minor, commit_hash # fetched)
      else bump_loop git_show commits (has_minor \<or> startswith (fst m) ''feat:'') (commit_hash # fetched))"

text \<open>\<open>determine_bump\<close> with the commits it looked at, in the order it did.\<close>

definition determine_bump_trace :: "(string \<Rightarrow> string option) \<Rightarrow> string list \<Rightarrow> string \<times> string list" where
  "determine_bump_trace git_show commits =
     (case bump_loop git_show commits False [] of
        (has_major, has_minor, fetched) \<Rightarrow>
          (if has_major then ''major'' else if has_minor then ''minor'' else ''patch'',
           rev fetched))"

definition determine_bump :: "(string \<Rightarrow> string option) \<Rightarrow> string list \<Rightarrow> string" where
  "determine_bump git_show commits = fst (determine_bump_trace git_show commits)"

subsection \<open>\<open>get_last_version\<close>\<close>

text \<open>
  \<open>re.match(r'^\d+\.\d+\.\d+$', tag)\<close>. Each step takes the text left to match and
  gives what is left after it. \<open>\d+\<close> is greedy, and taking all the digits loses no
  match here, since what follows it (a dot, or the end) is never a digit. \<open>$\<close> matches
  at the end and before a line feed that ends the text.
\<close>

definition match_digits :: "string \<Rightarrow> string option" where
  "match_digits s = (if takeWhile is_digit s = [] then None else Some (dropWhile is_digit s))"

definition match_dot :: "string \<Rightarrow> string option" where
  "match_dot s = (case s of [] \<Rightarrow> None | c # r \<Rightarrow> if c = CHR ''.'' then Some r else None)"

definition match_end :: "string \<Rightarrow> bool" where
  "match_end s \<longleftrightarrow> s = [] \<or> s = [NL]"

definition version_match :: "string \<Rightarrow> bool" where
  "version_match tag =
     (case Option.bind (Option.bind (Option.bind (Option.bind (match_digits tag)
              match_dot) match_digits) match_dot) match_digits of
        None \<Rightarrow> False
      | Some r \<Rightarrow> match_end r)"




subsection \<open>\<open>increment_version\<close> and \<open>determine_new_version\<close>\<close>

definition increment_version :: "string \<Rightarrow> string \<Rightarrow> py_error + string" where
  "increment_version version bump =
     (case those (map py_int (split_on (CHR ''.'') version)) of
        Some [major, minor, patch] \<Rightarrow>
          (if bump = ''major'' then Inr (str_int (major + 1) @ ''.'' @ str_int 0 @ ''.'' @ str_int 0)
           else if bump = ''minor'' then Inr (str_int major @ ''.'' @ str_int (minor + 1) @ ''.'' @ str_int 0)
           else Inr (str_int major @ ''.'' @ str_int minor @ ''.'' @ str_int (patch + 1)))
      | _ \<Rightarrow> Inl ValueError)"

definition determine_new_version ::
    "(string \<Rightarrow> string option) \<Rightarrow> string \<Rightarrow> string list \<Rightarrow> py_error + string option" where
  "determine_new_version git_show current_version commits =
     (if commits = [] then Inr None
      else if current_version = ''0.0.0'' then Inr (Some ''0.0.1'')
      else (case increment_version current_version (determine_bump git_show commits) of
              Inl e \<Rightarrow> Inl e
            | Inr new_version \<Rightarrow> Inr (Some new_version)))"

subsection \<open>\<open>create_zip\<close>\<close>







section \<open>generate-config.py\<close>

subsection \<open>Paths and files\<close>

text \<open>
  A \<open>pathlib\<close> path is its root and its components. Files are found by the path as
  written: symbolic links, \<open>..\<close> and the working directory, which would make two
  paths name one file, are outside the model, and so are permissions.
\<close>

datatype path = Path (absolute: bool) (parts: "string list")

text \<open>\<open>Path(s)\<close>: empty components and \<open>.\<close> are dropped.\<close>

definition parse_path :: "string \<Rightarrow> path" where
  "parse_path s =
     Path (s \<noteq> [] \<and> hd s = CHR ''/'')
          (filter (\<lambda>w. w \<noteq> [] \<and> w \<noteq> ''.'') (split_on (CHR ''/'') s))"

text \<open>\<open>p / s\<close>\<close>

definition joinpath :: "path \<Rightarrow> string \<Rightarrow> path" where
  "joinpath p s =
     (let q = parse_path s in
      if absolute q then q else Path (absolute p) (parts p @ parts q))"

definition parent :: "path \<Rightarrow> path" where
  "parent p = Path (absolute p) (butlast (parts p))"

definition path_name :: "path \<Rightarrow> string" where
  "path_name p = (if parts p = [] then [] else last (parts p))"

text \<open>\<open>p.suffix\<close>: the name from its last dot on, when that dot is neither the first
  nor the last character of the name.\<close>

definition path_suffix :: "path \<Rightarrow> string" where
  "path_suffix p =
     (let name = path_name p;
          i = length name - length (takeWhile (\<lambda>c. c \<noteq> CHR ''.'') (rev name)) - 1
      in if CHR ''.'' \<in> set name \<and> 0 < i \<and> i < length name - 1 then drop i name else [])"

text \<open>\<open>p.with_suffix(suffix)\<close>\<close>

definition with_suffix :: "path \<Rightarrow> string \<Rightarrow> py_error + path" where
  "with_suffix p sfx =
     (if CHR ''/'' \<in> set sfx then Inl ValueError
      else if (sfx \<noteq> [] \<and> \<not> startswith sfx ''.'') \<or> sfx = ''.'' then Inl ValueError
      else if path_name p = [] then Inl ValueError
      else Inr (Path (absolute p)
                  (butlast (parts p)
                   @ [take (length (path_name p) - length (path_suffix p)) (path_name p) @ sfx])))"

datatype node = File string | Dir

type_synonym fs = "path \<Rightarrow> node option"

text \<open>The root and the working directory, the paths of no component, are directories.\<close>

definition lookup :: "fs \<Rightarrow> path \<Rightarrow> node option" where
  "lookup fs p = (if parts p = [] then Some Dir else fs p)"

definition exists :: "fs \<Rightarrow> path \<Rightarrow> bool" where
  "exists fs p \<longleftrightarrow> lookup fs p \<noteq> None"

definition under :: "path \<Rightarrow> path \<Rightarrow> bool" where
  "under d p \<longleftrightarrow> absolute d = absolute p \<and> prefix (parts d) (parts p)"

definition unlink :: "path \<Rightarrow> fs \<Rightarrow> py_error + fs" where
  "unlink p fs =
     (case lookup fs p of
        None \<Rightarrow> Inl FileNotFoundError
      | Some Dir \<Rightarrow> Inl IsADirectoryError
      | Some (File _) \<Rightarrow> Inr (fs(p := None)))"

text \<open>
  \<open>src.rename(dst)\<close> moves the entry and all that is below it. A file replaces a
  file. The other renamings onto a path that exists are errors here, although the system
  lets a directory replace an empty one: \<open>run\<close> renames onto a path only after it
  has seen it absent or has removed it.
\<close>

definition rename :: "path \<Rightarrow> path \<Rightarrow> fs \<Rightarrow> py_error + fs" where
  "rename src dst fs =
     (case lookup fs src of
        None \<Rightarrow> Inl FileNotFoundError
      | Some n \<Rightarrow>
          if parts src = [] \<or> parts dst = [] \<or> under src dst then Inl OSError
          else if lookup fs dst \<noteq> None \<and> (n = Dir \<or> lookup fs dst = Some Dir) then Inl OSError
          else Inr (\<lambda>q. if under src q then None
                        else if under dst q
                        then fs (Path (absolute src) (parts src @ drop (length (parts dst)) (parts q)))
                        else fs q))"

text \<open>\<open>p.mkdir(parents=True, exist_ok=True)\<close>\<close>

function mkdir_parents :: "path \<Rightarrow> fs \<Rightarrow> py_error + fs" where
  "mkdir_parents p fs =
     (if parts p = [] then Inr fs
      else (case fs p of
              Some Dir \<Rightarrow> Inr fs
            | Some (File _) \<Rightarrow> Inl FileExistsError
            | None \<Rightarrow>
                (case lookup fs (parent p) of
                   Some (File _) \<Rightarrow> Inl NotADirectoryError
                 | Some Dir \<Rightarrow> Inr (fs(p := Some Dir))
                 | None \<Rightarrow>
                     (case mkdir_parents (parent p) fs of
                        Inl e \<Rightarrow> Inl e
                      | Inr fs' \<Rightarrow> Inr (fs'(p := Some Dir))))))"
  by pat_completeness auto
termination
  by (relation "measure (\<lambda>(p, fs). length (parts p))") (auto simp: parent_def)

declare mkdir_parents.simps [simp del]

text \<open>\<open>open(p, 'w')\<close> and the writing of the text \<open>s\<close>.\<close>

definition write_text :: "path \<Rightarrow> string \<Rightarrow> fs \<Rightarrow> py_error + fs" where
  "write_text p s fs =
     (if lookup fs p = Some Dir then Inl IsADirectoryError
      else (case lookup fs (parent p) of
              None \<Rightarrow> Inl FileNotFoundError
            | Some (File _) \<Rightarrow> Inl NotADirectoryError
            | Some Dir \<Rightarrow> Inr (fs(p := Some (File s)))))"

text \<open>\<open>open(p, 'r')\<close> and the reading of the whole file.\<close>

definition read_text :: "path \<Rightarrow> fs \<Rightarrow> py_error + string" where
  "read_text p fs =
     (case lookup fs p of
        None \<Rightarrow> Inl FileNotFoundError
      | Some Dir \<Rightarrow> Inl IsADirectoryError
      | Some (File s) \<Rightarrow> Inr s)"

subsection \<open>The environment\<close>

text \<open>\<open>os.environ\<close>, in the order it lists its keys.\<close>

type_synonym environ = "(string \<times> string) list"

definition getenv :: "environ \<Rightarrow> string \<Rightarrow> string \<Rightarrow> string" where
  "getenv env k d = (case map_of env k of None \<Rightarrow> d | Some v \<Rightarrow> v)"

subsection \<open>\<open>VintageStoryConfig\<close>\<close>

definition env_setting_map :: "(string \<times> string) list" where
  "env_setting_map =
     [(''VS_CFG_SERVER_NAME'', ''ServerName''),
      (''VS_CFG_SERVER_URL'', ''ServerUrl''),
      (''VS_CFG_SERVER_DESCRIPTION'', ''ServerDescription''),
      (''VS_CFG_WELCOME_MESSAGE'', ''WelcomeMessage''),
      (''VS_CFG_ALLOW_CREATIVE_MODE'', ''AllowCreativeMode''),
      (''VS_CFG_SERVER_IP'', ''Ip''),
      (''VS_CFG_SERVER_PORT'', ''Port''),
      (''VS_CFG_SERVER_UPNP'', ''Upnp''),
      (''VS_CFG_SERVER_COMPRESS_PACKETS'', ''CompressPackets''),
      (''VS_CFG_ADVERTISE_SERVER'', ''AdvertiseServer''),
      (''VS_CFG_MAX_CLIENTS'', ''MaxClients''),
      (''VS_CFG_PASS_TIME_WHEN_EMPTY'', ''PassTimeWhenEmpty''),
      (''VS_CFG_SERVER_PASSWORD'', ''Password''),
      (''VS_CFG_MAX_CHUNK_RADIUS'', ''MaxChunkRadius''),
      (''VS_CFG_SERVER_LANGUAGE'', ''ServerLanguage''),
      (''VS_CFG_ONLY_WHITELISTED'', ''OnlyWhitelisted''),
      (''VS_CFG_ANTIABUSE'', ''AntiAbuse''),
      (''VS_CFG_ALLOW_PVP'', ''AllowPvP''),
      (''VS_CFG_HOSTED_MODE'', ''HostedMode''),
      (''VS_CFG_HOSTED_MODE_ALLOW_MODS'', ''HostedModeAllowMods'')]"

record vs_config =
  config_json_path :: "path option"
  default_config_yaml_path :: path
  config :: pyval

text \<open>
  \<open>yaml.safe_load\<close> and \<open>json.dump\<close> belong to libraries: they are the parameters
  \<open>yaml_safe_load\<close>, from the text of a file to the value it loads or the exception it
  raises, and \<open>json_dumps\<close>, from a value to the text written with \<open>indent=2\<close> and
  \<open>ensure_ascii=False\<close>.
\<close>

definition load_config :: "(string \<Rightarrow> py_error + pyval) \<Rightarrow> path \<Rightarrow> fs \<Rightarrow> py_error + pyval" where
  "load_config yaml_safe_load yaml_path fs =
     (if exists fs yaml_path
      then (case read_text yaml_path fs of
              Inl e \<Rightarrow> Inl e
            | Inr content \<Rightarrow> yaml_safe_load content)
      else Inr (PyDict []))"

text \<open>\<open>__init__\<close>\<close>

definition init :: "(string \<Rightarrow> py_error + pyval) \<Rightarrow> environ \<Rightarrow> fs \<Rightarrow> py_error + vs_config" where
  "init yaml_safe_load env fs =
     (let yaml_path = joinpath (parse_path (getenv env ''HOMEPATH'' ''/vintagestory'')) ''server-config.yaml''
      in case load_config yaml_safe_load yaml_path fs of
           Inl e \<Rightarrow> Inl e
         | Inr c \<Rightarrow> Inr \<lparr>config_json_path = None, default_config_yaml_path = yaml_path, config = c\<rparr>)"

subsection \<open>\<open>generate_serverconfig\<close>\<close>

text \<open>\<open>config["WorldConfig"]["AllowCreativeMode"] = b\<close>\<close>

definition set_creative_mode :: "pyval \<Rightarrow> bool \<Rightarrow> py_error + pyval" where
  "set_creative_mode cfg b =
     (case cfg of
        PyDict d \<Rightarrow>
          (case map_of d ''WorldConfig'' of
             None \<Rightarrow> Inl (KeyError ''WorldConfig'')
           | Some (PyDict w) \<Rightarrow>
               Inr (PyDict (AList.update ''WorldConfig''
                              (PyDict (AList.update ''AllowCreativeMode'' (PyBool b) w)) d))
           | Some _ \<Rightarrow> Inl TypeError)
      | _ \<Rightarrow> Inl TypeError)"

text \<open>The dictionary comprehension of \<open>overrides\<close>, key by key of the environment.\<close>

fun build_overrides :: "string list \<Rightarrow> environ \<Rightarrow> (string \<times> pyval) list
    \<Rightarrow> py_error + (string \<times> pyval) list" where
  "build_overrides [] env acc = Inr acc"
| "build_overrides (env_key # keys) env acc =
     (if startswith env_key ''VS_CFG_''
      then (case map_of env_setting_map env_key of
              None \<Rightarrow> Inl (KeyError env_key)
            | Some k \<Rightarrow>
                (case map_of env env_key of
                   None \<Rightarrow> Inl (KeyError env_key)
                 | Some v \<Rightarrow> build_overrides keys env (AList.update k (PyStr v) acc)))
      else build_overrides keys env acc)"

text \<open>\<open>d.update(overrides)\<close>\<close>

definition dict_update :: "(string \<times> pyval) list \<Rightarrow> (string \<times> pyval) list \<Rightarrow> (string \<times> pyval) list" where
  "dict_update d overrides = fold (\<lambda>kv. AList.update (fst kv) (snd kv)) overrides d"

text \<open>The result is the configuration and the environment, which the \<open>pop\<close> changes.\<close>

definition generate_serverconfig :: "pyval \<Rightarrow> environ \<Rightarrow> py_error + pyval \<times> environ" where
  "generate_serverconfig cfg env =
     (case (case map_of env ''VS_CFG_ALLOW_CREATIVE_MODE'' of
              None \<Rightarrow> Inr (cfg, env)
            | Some v \<Rightarrow>
                (case set_creative_mode cfg (lower v \<in> set [''1'', ''true'', ''yes'']) of
                   Inl e \<Rightarrow> Inl e
                 | Inr cfg' \<Rightarrow> Inr (cfg', AList.delete ''VS_CFG_ALLOW_CREATIVE_MODE'' env))) of
        Inl e \<Rightarrow> Inl e
      | Inr (cfg1, env1) \<Rightarrow>
          (case build_overrides (map fst env1) env1 [] of
             Inl e \<Rightarrow> Inl e
           | Inr overrides \<Rightarrow>
               (case cfg1 of
                  PyDict d \<Rightarrow> Inr (PyDict (dict_update d overrides), env1)
                | _ \<Rightarrow> Inl AttributeError)))"

subsection \<open>\<open>run\<close>\<close>

text \<open>Lines 82 to 87: the backup of the file that exists. The result is the exception,
  if one was raised, and the files as they are then.\<close>

definition backup_existing :: "path \<Rightarrow> fs \<Rightarrow> py_error option \<times> fs" where
  "backup_existing p fs =
     (if exists fs p
      then (case with_suffix p ''.json.backup'' of
              Inl e \<Rightarrow> (Some e, fs)
            | Inr backup_path \<Rightarrow>
                (case (if exists fs backup_path then unlink backup_path fs else Inr fs) of
                   Inl e \<Rightarrow> (Some e, fs)
                 | Inr fs1 \<Rightarrow>
                     (case rename p backup_path fs1 of
                        Inl e \<Rightarrow> (Some e, fs1)
                      | Inr fs2 \<Rightarrow> (None, fs2))))
      else (None, fs))"

text \<open>Lines 100 to 106: the summary, which reads three keys of the configuration.\<close>

definition summary :: "pyval \<Rightarrow> py_error option" where
  "summary cfg =
     (case cfg of
        PyDict d \<Rightarrow>
          (if map_of d ''ServerName'' = None then Some (KeyError ''ServerName'')
           else if map_of d ''Port'' = None then Some (KeyError ''Port'')
           else if map_of d ''MaxClients'' = None then Some (KeyError ''MaxClients'')
           else None)
      | _ \<Rightarrow> Some TypeError)"

definition resolve_output :: "string list \<Rightarrow> environ \<Rightarrow> path" where
  "resolve_output args env =
     (if length args > 1 then parse_path (args ! 1)
      else joinpath (parse_path (getenv env ''DATAPATH'' ''/vintagestory/data'')) ''serverconfig.json'')"

text \<open>The exit code and the files after the run. Every exception of the \<open>try\<close> block
  is caught and gives 1, with the files as they are when it is raised.\<close>

definition run :: "(pyval \<Rightarrow> string) \<Rightarrow> vs_config \<Rightarrow> string list \<Rightarrow> environ \<Rightarrow> fs \<Rightarrow> int \<times> fs" where
  "run json_dumps self args env fs =
     (let p = resolve_output args env in
      if \<not> exists fs (default_config_yaml_path self) then (1, fs)
      else (case backup_existing p fs of
              (Some e, fs1) \<Rightarrow> (1, fs1)
            | (None, fs1) \<Rightarrow>
                (case generate_serverconfig (config self) env of
                   Inl e \<Rightarrow> (1, fs1)
                 | Inr (cfg, env') \<Rightarrow>
                     (case mkdir_parents (parent p) fs1 of
                        Inl e \<Rightarrow> (1, fs1)
                      | Inr fs2 \<Rightarrow>
                          (case write_text p (json_dumps cfg) fs2 of
                             Inl e \<Rightarrow> (1, fs2)
                           | Inr fs3 \<Rightarrow>
                               (case summary cfg of
                                  Some e \<Rightarrow> (1, fs3)
                                | None \<Rightarrow> (0, fs3)))))))"

section \<open>Properties\<close>

subsection \<open>Splitting and reading numbers\<close>


lemma split_on_no_sep: "sep \<notin> set a \<Longrightarrow> split_on sep a = [a]"
  by (induction a) auto

lemma split_on_append: "sep \<notin> set a \<Longrightarrow> split_on sep (a @ sep # r) = a # split_on sep r"
  by (induction a) auto


lemma digit_not_space: "is_digit c \<Longrightarrow> \<not> is_space c"
  by (auto simp: is_digit_def is_space_def Let_def)

lemma digit_not_sign: "is_digit c \<Longrightarrow> c \<noteq> CHR ''-'' \<and> c \<noteq> CHR ''+'' \<and> c \<noteq> CHR ''_'' \<and> c \<noteq> CHR ''.'' \<and> c \<noteq> NL"
  by (auto simp: is_digit_def NL_def)

lemma NL_space: "is_space NL"
  by (simp add: is_space_def NL_def)

lemma strip_digits:
  assumes "ds \<noteq> []" "\<forall>c\<in>set ds. is_digit c"
  shows "strip ds = ds" "strip (ds @ [NL]) = ds"
proof -
  have h: "\<not> is_space (hd ds)" using assms by (simp add: digit_not_space)
  have l: "\<not> is_space (last ds)" using assms by (simp add: digit_not_space)
  have d1: "dropWhile is_space ds = ds" using assms(1) h by (cases ds) auto
  have d2: "dropWhile is_space (rev ds) = rev ds"
    using assms(1) l by (cases "rev ds") (auto simp: last_rev hd_rev [symmetric] simp flip: hd_rev)
  show "strip ds = ds" by (simp add: strip_def d1 d2)
  have d3: "dropWhile is_space (ds @ [NL]) = ds @ [NL]" using assms(1) h by (cases ds) auto
  show "strip (ds @ [NL]) = ds" by (simp add: strip_def d3 d2 NL_space)
qed

lemma digit_groups_ok_digits: "\<forall>c\<in>set ds. is_digit c \<Longrightarrow> digit_groups_ok b ds = (b \<or> ds \<noteq> [])"
  by (induction ds arbitrary: b) auto

lemma py_int_digits:
  assumes "ds \<noteq> []" "\<forall>c\<in>set ds. is_digit c"
  shows "py_int ds = Some (int (nat_of_digits ds))" "py_int (ds @ [NL]) = Some (int (nat_of_digits ds))"
proof -
  have f: "filter (\<lambda>c. c \<noteq> CHR ''_'') ds = ds"
    using assms(2) digit_not_sign by (induction ds) auto
  have hd: "hd ds \<noteq> CHR ''-''" "hd ds \<noteq> CHR ''+''"
    using assms digit_not_sign [of "hd ds"] by auto
  show "py_int ds = Some (int (nat_of_digits ds))"
    using assms hd by (simp add: py_int_def strip_digits f digit_groups_ok_digits Let_def)
  show "py_int (ds @ [NL]) = Some (int (nat_of_digits ds))"
    using assms hd by (simp add: py_int_def strip_digits f digit_groups_ok_digits Let_def)
qed

subsection \<open>Version tags\<close>




lemma match_digits_append:
  assumes "ds \<noteq> []" "\<forall>x\<in>set ds. is_digit x" "r = [] \<or> \<not> is_digit (hd r)"
  shows "match_digits (ds @ r) = Some r"
proof -
  have "takeWhile is_digit (ds @ r) = ds" "dropWhile is_digit (ds @ r) = r"
    using assms(2,3) by (cases r; simp)+
  then show ?thesis using assms(1) by (simp add: match_digits_def)
qed

lemma version_match_digits:
  assumes "a \<noteq> []" "b \<noteq> []" "c \<noteq> []" "\<forall>x\<in>set (a @ b @ c). is_digit x"
  shows "version_match (a @ CHR ''.'' # b @ CHR ''.'' # c)"
proof -
  have nd: "\<not> is_digit (CHR ''.'')" by (simp add: is_digit_def)
  have 1: "match_digits (a @ CHR ''.'' # b @ CHR ''.'' # c) = Some (CHR ''.'' # b @ CHR ''.'' # c)"
    using assms nd by (intro match_digits_append) auto
  have 2: "match_digits (b @ CHR ''.'' # c) = Some (CHR ''.'' # c)"
    using assms nd by (intro match_digits_append) auto
  have 3: "match_digits (c @ []) = Some []"
    using assms by (intro match_digits_append) auto
  show ?thesis
    using 1 2 3 by (simp add: version_match_def match_dot_def match_end_def)
qed

lemma those_map_Some: "those (map Some xs) = Some xs"
  by (induction xs) auto

lemma dot_not_digit: "\<not> is_digit (CHR ''.'')"
  by (simp add: is_digit_def)

lemma digits_no_dot: "\<forall>x\<in>set ds. is_digit x \<Longrightarrow> CHR ''.'' \<notin> set ds"
  using dot_not_digit by blast

lemma split_version:
  assumes "\<forall>x\<in>set (a @ b @ c). is_digit x" "r = [] \<or> r = [NL]"
  shows "split_on (CHR ''.'') (a @ CHR ''.'' # b @ CHR ''.'' # c @ r) = [a, b, c @ r]"
proof -
  have a: "CHR ''.'' \<notin> set a" and b: "CHR ''.'' \<notin> set b" and c: "CHR ''.'' \<notin> set c"
    using assms(1) by (simp_all add: digits_no_dot)
  have "CHR ''.'' \<notin> set r" using assms(2) by (auto simp: NL_def)
  with c have cr: "CHR ''.'' \<notin> set (c @ r)" by simp
  have "split_on (CHR ''.'') (a @ CHR ''.'' # b @ CHR ''.'' # c @ r)
        = a # split_on (CHR ''.'') (b @ CHR ''.'' # c @ r)"
    using a by (rule split_on_append)
  also have "split_on (CHR ''.'') (b @ CHR ''.'' # c @ r) = b # split_on (CHR ''.'') (c @ r)"
    using b by (rule split_on_append)
  also have "split_on (CHR ''.'') (c @ r) = [c @ r]"
    using cr by (rule split_on_no_sep)
  finally show ?thesis .
qed

lemma version_ints:
  assumes "a \<noteq> []" "b \<noteq> []" "c \<noteq> []" "\<forall>x\<in>set (a @ b @ c). is_digit x" "r = [] \<or> r = [NL]"
  shows "those (map py_int (split_on (CHR ''.'') (a @ CHR ''.'' # b @ CHR ''.'' # c @ r)))
         = Some [int (nat_of_digits a), int (nat_of_digits b), int (nat_of_digits c)]"
proof -
  have "py_int a = Some (int (nat_of_digits a))" "py_int b = Some (int (nat_of_digits b))"
    "py_int (c @ r) = Some (int (nat_of_digits c))"
    using assms py_int_digits [of a] py_int_digits [of b] py_int_digits [of c] by auto
  then show ?thesis by (simp add: split_version [OF assms(4,5)])
qed


subsection \<open>\<open>determine_bump\<close>\<close>




subsection \<open>\<open>get_last_version\<close>\<close>




subsection \<open>\<open>determine_new_version\<close>\<close>

lemma str_int_nat: "str_int (int n) = str_nat n"
  by (simp add: str_int_def)

lemma str_nat_0: "str_nat 0 = ''0''"
  by (simp add: str_nat.simps)

lemma increment_version_digits:
  assumes "a \<noteq> []" "b \<noteq> []" "c \<noteq> []" "\<forall>x\<in>set (a @ b @ c). is_digit x"
  shows "increment_version (a @ ''.'' @ b @ ''.'' @ c) bump =
     Inr (if bump = ''major'' then str_nat (nat_of_digits a + 1) @ ''.0.0''
          else if bump = ''minor''
          then str_nat (nat_of_digits a) @ ''.'' @ str_nat (nat_of_digits b + 1) @ ''.0''
          else str_nat (nat_of_digits a) @ ''.'' @ str_nat (nat_of_digits b) @ ''.''
               @ str_nat (nat_of_digits c + 1))"
proof -
  have "those (map py_int (split_on (CHR ''.'') (a @ CHR ''.'' # b @ CHR ''.'' # c @ [])))
         = Some [int (nat_of_digits a), int (nat_of_digits b), int (nat_of_digits c)]"
    using assms by (intro version_ints) auto
  then have p: "those (map py_int (split_on (CHR ''.'') (a @ ''.'' @ b @ ''.'' @ c)))
         = Some [int (nat_of_digits a), int (nat_of_digits b), int (nat_of_digits c)]"
    by simp
  have s: "str_int (int (nat_of_digits a) + 1) = str_nat (nat_of_digits a + 1)"
    "str_int (int (nat_of_digits b) + 1) = str_nat (nat_of_digits b + 1)"
    "str_int (int (nat_of_digits c) + 1) = str_nat (nat_of_digits c + 1)"
    using str_int_nat [of "nat_of_digits a + 1"] str_int_nat [of "nat_of_digits b + 1"]
      str_int_nat [of "nat_of_digits c + 1"]
    by (simp_all add: add.commute)
  have z: "str_int 0 = ''0''"
    using str_int_nat [of 0] by (simp add: str_nat_0)
  show ?thesis
    unfolding increment_version_def p by (simp add: s z str_int_nat)
qed

text \<open>The decimal text of a number reads back as the number.\<close>

lemma nat_of_digits_snoc: "nat_of_digits (ds @ [d]) = 10 * nat_of_digits ds + digit_val d"
  by (simp add: nat_of_digits_def)

lemma digit_val_nth: "n < 10 \<Longrightarrow> digit_val (''0123456789'' ! n) = n"
proof -
  assume "n < 10"
  then have "n \<in> {0, 1, 2, 3, 4, 5, 6, 7, 8, 9}" by auto
  then show ?thesis by (auto simp: digit_val_def)
qed

lemma nat_of_digits_str_nat: "nat_of_digits (str_nat n) = n"
proof (induction n rule: str_nat.induct)
  case (1 n)
  show ?case
  proof (cases "n < 10")
    case True
    then show ?thesis
      using digit_val_nth [of n] nat_of_digits_snoc [of "[]" "''0123456789'' ! n"]
      by (simp add: str_nat.simps [of n] nat_of_digits_def)
  next
    case False
    have "n mod 10 < 10" by simp
    then have d: "digit_val (''0123456789'' ! (n mod 10)) = n mod 10" by (rule digit_val_nth)
    from False 1 have ih: "nat_of_digits (str_nat (n div 10)) = n div 10" by simp
    have "str_nat n = str_nat (n div 10) @ [''0123456789'' ! (n mod 10)]"
      using False by (subst str_nat.simps) simp
    then show ?thesis by (simp only: nat_of_digits_snoc d ih) simp
  qed
qed

text \<open>
  Claim C7. \<open>determine_new_version\<close> returns \<open>None\<close> for the empty list of commits and
  \<open>0.0.1\<close> for the version \<open>0.0.0\<close> with a commit, whatever the commits say. For any
  other version \<open>a.b.c\<close>, three numbers written in digits, it returns the version
  incremented as \<open>determine_bump\<close> classifies the commits: major plus one and two zeros
  for \<open>major\<close>, minor plus one and a zero for \<open>minor\<close>, patch plus one otherwise.
\<close>

theorem determine_new_version_increments:
  "determine_new_version git_show current_version [] = Inr None
   \<and> (commits \<noteq> [] \<longrightarrow> determine_new_version git_show ''0.0.0'' commits = Inr (Some ''0.0.1''))
   \<and> (commits \<noteq> [] \<and> a \<noteq> [] \<and> b \<noteq> [] \<and> c \<noteq> [] \<and> (\<forall>x\<in>set (a @ b @ c). is_digit x)
        \<and> a @ ''.'' @ b @ ''.'' @ c \<noteq> ''0.0.0'' \<longrightarrow>
      determine_new_version git_show (a @ ''.'' @ b @ ''.'' @ c) commits =
        Inr (Some (if determine_bump git_show commits = ''major''
                   then str_nat (nat_of_digits a + 1) @ ''.0.0''
                   else if determine_bump git_show commits = ''minor''
                   then str_nat (nat_of_digits a) @ ''.'' @ str_nat (nat_of_digits b + 1) @ ''.0''
                   else str_nat (nat_of_digits a) @ ''.'' @ str_nat (nat_of_digits b) @ ''.''
                        @ str_nat (nat_of_digits c + 1))))"
proof -
  have 1: "determine_new_version git_show current_version [] = Inr None"
    by (simp add: determine_new_version_def)
  have 2: "determine_new_version git_show ''0.0.0'' commits = Inr (Some ''0.0.1'')" if "commits \<noteq> []"
    using that by (simp add: determine_new_version_def)
  have 3: "determine_new_version git_show (a @ ''.'' @ b @ ''.'' @ c) commits =
        Inr (Some (if determine_bump git_show commits = ''major''
                   then str_nat (nat_of_digits a + 1) @ ''.0.0''
                   else if determine_bump git_show commits = ''minor''
                   then str_nat (nat_of_digits a) @ ''.'' @ str_nat (nat_of_digits b + 1) @ ''.0''
                   else str_nat (nat_of_digits a) @ ''.'' @ str_nat (nat_of_digits b) @ ''.''
                        @ str_nat (nat_of_digits c + 1)))"
    if "commits \<noteq> []" "a \<noteq> []" "b \<noteq> []" "c \<noteq> []" "\<forall>x\<in>set (a @ b @ c). is_digit x"
      "a @ ''.'' @ b @ ''.'' @ c \<noteq> ''0.0.0''"
    unfolding determine_new_version_def increment_version_digits [OF that(2-5)]
    using that(1,6) by simp
  from 1 2 3 show ?thesis by blast
qed

theorem determine_new_version_increments_witness:
  "determine_new_version (\<lambda>h. Some (h @ [NL, NL])) ''1.4.9'' [] = Inr None
   \<and> determine_new_version (\<lambda>h. Some (h @ [NL, NL])) ''0.0.0'' [''feat!: x''] = Inr (Some ''0.0.1'')
   \<and> determine_new_version (\<lambda>h. Some (h @ [NL, NL])) ''1.4.9'' [''fix!: change API''] = Inr (Some ''2.0.0'')
   \<and> determine_new_version (\<lambda>h. Some (h @ [NL, NL])) ''1.4.9'' [''feat: add X'', ''fix: patch Y'']
       = Inr (Some ''1.5.0'')
   \<and> determine_new_version (\<lambda>h. Some (h @ [NL, NL])) ''1.4.9'' [''chore: cleanup''] = Inr (Some ''1.4.10'')"
proof -
  have e: "str_nat (Suc (nat_of_digits ''1'')) = ''2''" "str_nat (nat_of_digits ''1'') = ''1''"
    "str_nat (Suc (nat_of_digits ''4'')) = ''5''" "str_nat (nat_of_digits ''4'') = ''4''"
    "str_nat (Suc (nat_of_digits ''9'')) = ''10''"
    "is_digit CHR ''1''" "is_digit CHR ''4''" "is_digit CHR ''9''"
    "determine_bump (\<lambda>h. Some (h @ [NL, NL])) [''fix!: change API''] = ''major''"
    "determine_bump (\<lambda>h. Some (h @ [NL, NL])) [''feat: add X'', ''fix: patch Y''] = ''minor''"
    "determine_bump (\<lambda>h. Some (h @ [NL, NL])) [''chore: cleanup''] = ''patch''"
    by code_simp+
  show ?thesis
    using determine_new_version_increments [of "\<lambda>h. Some (h @ [NL, NL])" "''1.4.9''" "[''feat!: x'']" "''1''" "''4''" "''9''"]
      determine_new_version_increments [of "\<lambda>h. Some (h @ [NL, NL])" "''1.4.9''" "[''fix!: change API'']" "''1''" "''4''" "''9''"]
      determine_new_version_increments [of "\<lambda>h. Some (h @ [NL, NL])" "''1.4.9''" "[''feat: add X'', ''fix: patch Y'']" "''1''" "''4''" "''9''"]
      determine_new_version_increments [of "\<lambda>h. Some (h @ [NL, NL])" "''1.4.9''" "[''chore: cleanup'']" "''1''" "''4''" "''9''"]
    by (simp add: e)
qed

subsection \<open>\<open>create_zip\<close>\<close>








section \<open>Properties of generate-config.py\<close>

subsection \<open>The translation table and the overrides\<close>

lemma table_values_distinct: "distinct (map snd env_setting_map)"
  by (simp add: env_setting_map_def)

lemma table_inj:
  assumes "map_of env_setting_map k = Some key" "map_of env_setting_map k' = Some key"
  shows "k = k'"
proof -
  have m: "(k, key) \<in> set env_setting_map" "(k', key) \<in> set env_setting_map"
    using assms by (auto dest: map_of_SomeD)
  have inj: "inj_on snd (set env_setting_map)"
    using table_values_distinct by (simp add: distinct_map)
  have "(k, key) = (k', key)"
    using inj_onD [OF inj _ m(1) m(2)] by simp
  then show ?thesis by simp
qed


lemma table_creative:
  "map_of env_setting_map ''VS_CFG_ALLOW_CREATIVE_MODE'' = Some ''AllowCreativeMode''"
  by (simp add: env_setting_map_def)

lemma creative_prefixed: "startswith ''VS_CFG_ALLOW_CREATIVE_MODE'' ''VS_CFG_''"
  by (simp add: startswith_def)

lemma build_overrides_ok:
  assumes "\<forall>k\<in>set ks. startswith k ''VS_CFG_''
             \<longrightarrow> map_of env_setting_map k \<noteq> None \<and> map_of env k \<noteq> None"
  shows "\<exists>ov. build_overrides ks env acc = Inr ov"
  using assms by (induction ks arbitrary: acc) (auto split: option.splits)

lemma build_overrides_distinct:
  "build_overrides ks env acc = Inr ov \<Longrightarrow> distinct (map fst acc) \<Longrightarrow> distinct (map fst ov)"
  by (induction ks arbitrary: acc) (auto split: option.splits if_splits simp: distinct_update)

lemma build_overrides_other:
  "build_overrides ks env acc = Inr ov
   \<Longrightarrow> \<forall>k\<in>set ks. startswith k ''VS_CFG_'' \<longrightarrow> map_of env_setting_map k \<noteq> Some key
   \<Longrightarrow> map_of ov key = map_of acc key"
proof (induction ks arbitrary: acc)
  case Nil
  then show ?case by simp
next
  case (Cons k0 ks)
  show ?case
  proof (cases "startswith k0 ''VS_CFG_''")
    case False
    with Cons show ?thesis by simp
  next
    case True
    with Cons.prems(1) obtain key0 v0 where
      t: "map_of env_setting_map k0 = Some key0" and e: "map_of env k0 = Some v0"
      and b: "build_overrides ks env (AList.update key0 (PyStr v0) acc) = Inr ov"
      by (auto split: option.splits)
    from Cons.prems(2) True t have "key0 \<noteq> key" by auto
    moreover have "map_of ov key = map_of (AList.update key0 (PyStr v0) acc) key"
      using Cons.IH [OF b] Cons.prems(2) by simp
    ultimately show ?thesis by (simp add: update_conv')
  qed
qed

lemma build_overrides_sets:
  "build_overrides ks env acc = Inr ov \<Longrightarrow> k \<in> set ks \<Longrightarrow> startswith k ''VS_CFG_''
   \<Longrightarrow> map_of env k = Some v
   \<Longrightarrow> \<exists>key. map_of env_setting_map k = Some key \<and> map_of ov key = Some (PyStr v)"
proof (induction ks arbitrary: acc)
  case Nil
  then show ?case by simp
next
  case (Cons k0 ks)
  show ?case
  proof (cases "startswith k0 ''VS_CFG_''")
    case False
    with Cons.prems have "k \<in> set ks" "build_overrides ks env acc = Inr ov" by auto
    then show ?thesis using Cons.IH Cons.prems(3,4) by blast
  next
    case True
    with Cons.prems(1) obtain key0 v0 where
      t: "map_of env_setting_map k0 = Some key0" and e: "map_of env k0 = Some v0"
      and b: "build_overrides ks env (AList.update key0 (PyStr v0) acc) = Inr ov"
      by (auto split: option.splits)
    show ?thesis
    proof (cases "k \<in> set ks")
      case True
      then show ?thesis using Cons.IH [OF b] Cons.prems(3,4) by blast
    next
      case False
      with Cons.prems(2) have k0: "k = k0" by simp
      have "\<forall>k'\<in>set ks. startswith k' ''VS_CFG_'' \<longrightarrow> map_of env_setting_map k' \<noteq> Some key0"
      proof (intro ballI impI notI)
        fix k' assume "k' \<in> set ks" "map_of env_setting_map k' = Some key0"
        with t have "k' = k0" by (intro table_inj)
        with \<open>k' \<in> set ks\<close> False k0 show False by simp
      qed
      from build_overrides_other [OF b this]
      have "map_of ov key0 = Some (PyStr v0)" by (simp add: update_conv')
      with t e k0 Cons.prems(4) show ?thesis by simp
    qed
  qed
qed

lemma build_overrides_fail:
  assumes "k \<in> set ks" "startswith k ''VS_CFG_''" "map_of env_setting_map k = None"
    and "\<forall>k\<in>set ks. map_of env k \<noteq> None"
  shows "\<exists>k'\<in>set ks. build_overrides ks env acc = Inl (KeyError k')
           \<and> startswith k' ''VS_CFG_'' \<and> map_of env_setting_map k' = None"
  using assms
proof (induction ks arbitrary: acc)
  case Nil
  then show ?case by simp
next
  case (Cons k0 ks)
  show ?case
  proof (cases "startswith k0 ''VS_CFG_'' \<and> map_of env_setting_map k0 = None")
    case True
    then show ?thesis by simp
  next
    case False
    with Cons.prems have "k \<in> set ks" by auto
    from Cons.IH [OF this Cons.prems(2,3)] Cons.prems(4)
    have "\<And>acc'. \<exists>k'\<in>set ks. build_overrides ks env acc' = Inl (KeyError k')
           \<and> startswith k' ''VS_CFG_'' \<and> map_of env_setting_map k' = None"
      by simp
    with False Cons.prems(4) show ?thesis
      by (cases "startswith k0 ''VS_CFG_''") (auto split: option.splits)
  qed
qed

lemma map_of_rev_distinct:
  assumes "distinct (map fst xs)"
  shows "map_of (rev xs) = map_of xs"
proof
  fix k
  show "map_of (rev xs) k = map_of xs k"
  proof (cases "map_of xs k")
    case None
    then have "k \<notin> fst ` set xs" by (simp add: map_of_eq_None_iff)
    then have "map_of (rev xs) k = None" by (simp add: map_of_eq_None_iff)
    with None show ?thesis by simp
  next
    case (Some v)
    then have "(k, v) \<in> set (rev xs)" by (auto dest: map_of_SomeD)
    moreover have "distinct (map fst (rev xs))" using assms by (simp add: rev_map [symmetric])
    ultimately have "map_of (rev xs) k = Some v" by (rule map_of_is_SomeI [rotated])
    with Some show ?thesis by simp
  qed
qed

lemma dict_update_rev: "map_of (dict_update d ov) = map_of d ++ map_of (rev ov)"
  unfolding dict_update_def
  by (induction ov arbitrary: d) (simp_all add: update_conv' map_add_upd_left fun_eq_iff map_add_def split: option.splits)

lemma dict_update_lookup:
  assumes "distinct (map fst ov)"
  shows "map_of (dict_update d ov) key = (case map_of ov key of None \<Rightarrow> map_of d key | Some v \<Rightarrow> Some v)"
  by (simp add: dict_update_rev map_of_rev_distinct [OF assms] map_add_def)

subsection \<open>\<open>generate_serverconfig\<close>\<close>

lemma overrides_of_env:
  assumes ok: "\<forall>k\<in>fst ` set env. k \<noteq> ''VS_CFG_ALLOW_CREATIVE_MODE'' \<longrightarrow> startswith k ''VS_CFG_''
                 \<longrightarrow> map_of env_setting_map k \<noteq> None"
  shows "\<exists>ov. build_overrides (map fst (AList.delete ''VS_CFG_ALLOW_CREATIVE_MODE'' env))
                 (AList.delete ''VS_CFG_ALLOW_CREATIVE_MODE'' env) [] = Inr ov
      \<and> distinct (map fst ov)
      \<and> (\<forall>k v. k \<noteq> ''VS_CFG_ALLOW_CREATIVE_MODE'' \<and> startswith k ''VS_CFG_'' \<and> map_of env k = Some v
            \<longrightarrow> (\<exists>key. map_of env_setting_map k = Some key \<and> map_of ov key = Some (PyStr v)))
      \<and> (\<forall>key. (\<forall>k\<in>fst ` set env. k \<noteq> ''VS_CFG_ALLOW_CREATIVE_MODE'' \<and> startswith k ''VS_CFG_''
                     \<longrightarrow> map_of env_setting_map k \<noteq> Some key)
            \<longrightarrow> map_of ov key = None)"
proof -
  define env1 where "env1 = AList.delete ''VS_CFG_ALLOW_CREATIVE_MODE'' env"
  have keys: "set (map fst env1) = fst ` set env - {''VS_CFG_ALLOW_CREATIVE_MODE''}"
    unfolding env1_def by (auto simp: delete_keys)
  have look: "map_of env1 k = map_of env k" if "k \<noteq> ''VS_CFG_ALLOW_CREATIVE_MODE''" for k
    unfolding env1_def using that by simp
  have present: "map_of env1 k \<noteq> None" if "k \<in> set (map fst env1)" for k
    using that by (simp add: map_of_eq_None_iff)
  have "\<forall>k\<in>set (map fst env1). startswith k ''VS_CFG_''
          \<longrightarrow> map_of env_setting_map k \<noteq> None \<and> map_of env1 k \<noteq> None"
    using ok present unfolding keys by blast
  from build_overrides_ok [OF this, of "[]"] obtain ov where
    ov: "build_overrides (map fst env1) env1 [] = Inr ov" by blast
  have d: "distinct (map fst ov)"
    using build_overrides_distinct [OF ov] by simp
  have sets: "\<exists>key. map_of env_setting_map k = Some key \<and> map_of ov key = Some (PyStr v)"
    if "k \<noteq> ''VS_CFG_ALLOW_CREATIVE_MODE''" "startswith k ''VS_CFG_''" "map_of env k = Some v" for k v
  proof -
    from that(3) have "k \<in> fst ` set env" by (force dest: map_of_SomeD)
    with that(1) have "k \<in> set (map fst env1)" unfolding keys by simp
    moreover have "map_of env1 k = Some v" using look [OF that(1)] that(3) by simp
    ultimately show ?thesis using build_overrides_sets [OF ov _ that(2)] by blast
  qed
  have other: "map_of ov key = None"
    if "\<forall>k\<in>fst ` set env. k \<noteq> ''VS_CFG_ALLOW_CREATIVE_MODE'' \<and> startswith k ''VS_CFG_''
                     \<longrightarrow> map_of env_setting_map k \<noteq> Some key" for key
  proof -
    have "\<forall>k\<in>set (map fst env1). startswith k ''VS_CFG_'' \<longrightarrow> map_of env_setting_map k \<noteq> Some key"
      using that unfolding keys by blast
    from build_overrides_other [OF ov this] show ?thesis by simp
  qed
  from ov d sets other show ?thesis unfolding env1_def by blast
qed

lemma generate_plain:
  assumes "map_of env ''VS_CFG_ALLOW_CREATIVE_MODE'' = None"
    and "build_overrides (map fst (AList.delete ''VS_CFG_ALLOW_CREATIVE_MODE'' env))
           (AList.delete ''VS_CFG_ALLOW_CREATIVE_MODE'' env) [] = Inr ov"
  shows "generate_serverconfig (PyDict d) env
         = Inr (PyDict (dict_update d ov), AList.delete ''VS_CFG_ALLOW_CREATIVE_MODE'' env)"
proof -
  from assms(1) have "''VS_CFG_ALLOW_CREATIVE_MODE'' \<notin> fst ` set env"
    by (simp add: map_of_eq_None_iff)
  then have id: "AList.delete ''VS_CFG_ALLOW_CREATIVE_MODE'' env = env" by (rule delete_id)
  show ?thesis
    using assms unfolding id by (simp add: generate_serverconfig_def)
qed

lemma generate_creative:
  assumes "map_of env ''VS_CFG_ALLOW_CREATIVE_MODE'' = Some v"
    and "map_of d ''WorldConfig'' = Some (PyDict w)"
    and "build_overrides (map fst (AList.delete ''VS_CFG_ALLOW_CREATIVE_MODE'' env))
           (AList.delete ''VS_CFG_ALLOW_CREATIVE_MODE'' env) [] = Inr ov"
  shows "generate_serverconfig (PyDict d) env
         = Inr (PyDict (dict_update
                  (AList.update ''WorldConfig''
                     (PyDict (AList.update ''AllowCreativeMode''
                                (PyBool (lower v \<in> set [''1'', ''true'', ''yes''])) w)) d) ov),
                AList.delete ''VS_CFG_ALLOW_CREATIVE_MODE'' env)"
  using assms by (simp add: generate_serverconfig_def set_creative_mode_def)

text \<open>
  Claim C3. Let every variable of the environment whose name starts with \<open>VS_CFG_\<close> be
  in the translation table, and let the defaults hold a mapping under \<open>WorldConfig\<close>
  when the creative-mode variable is set, so that \<open>generate_serverconfig\<close> raises
  nothing. Then it returns, and afterwards the configuration maps the translated key of
  every such variable but the creative-mode one to the raw string of the variable; a key
  that no such variable translates to keeps the value of the defaults, \<open>WorldConfig\<close>
  being the key the creative-mode variable writes.
\<close>

theorem generate_serverconfig_merges:
  assumes "\<forall>k\<in>fst ` set env. k \<noteq> ''VS_CFG_ALLOW_CREATIVE_MODE'' \<longrightarrow> startswith k ''VS_CFG_''
                 \<longrightarrow> map_of env_setting_map k \<noteq> None"
    and "map_of env ''VS_CFG_ALLOW_CREATIVE_MODE'' \<noteq> None
           \<longrightarrow> (\<exists>w. map_of d ''WorldConfig'' = Some (PyDict w))"
  shows "\<exists>d'. generate_serverconfig (PyDict d) env
                = Inr (PyDict d', AList.delete ''VS_CFG_ALLOW_CREATIVE_MODE'' env)
      \<and> (\<forall>k v. k \<noteq> ''VS_CFG_ALLOW_CREATIVE_MODE'' \<and> startswith k ''VS_CFG_'' \<and> map_of env k = Some v
            \<longrightarrow> (\<exists>key. map_of env_setting_map k = Some key \<and> map_of d' key = Some (PyStr v)))
      \<and> (\<forall>key. (\<forall>k\<in>fst ` set env. k \<noteq> ''VS_CFG_ALLOW_CREATIVE_MODE'' \<and> startswith k ''VS_CFG_''
                     \<longrightarrow> map_of env_setting_map k \<noteq> Some key)
                 \<and> (map_of env ''VS_CFG_ALLOW_CREATIVE_MODE'' \<noteq> None \<longrightarrow> key \<noteq> ''WorldConfig'')
            \<longrightarrow> map_of d' key = map_of d key)"
proof -
  from overrides_of_env [OF assms(1)] obtain ov where
    all: "build_overrides (map fst (AList.delete ''VS_CFG_ALLOW_CREATIVE_MODE'' env))
                 (AList.delete ''VS_CFG_ALLOW_CREATIVE_MODE'' env) [] = Inr ov
      \<and> distinct (map fst ov)
      \<and> (\<forall>k v. k \<noteq> ''VS_CFG_ALLOW_CREATIVE_MODE'' \<and> startswith k ''VS_CFG_'' \<and> map_of env k = Some v
            \<longrightarrow> (\<exists>key. map_of env_setting_map k = Some key \<and> map_of ov key = Some (PyStr v)))
      \<and> (\<forall>key. (\<forall>k\<in>fst ` set env. k \<noteq> ''VS_CFG_ALLOW_CREATIVE_MODE'' \<and> startswith k ''VS_CFG_''
                     \<longrightarrow> map_of env_setting_map k \<noteq> Some key)
            \<longrightarrow> map_of ov key = None)"
    by (elim exE)
  from all have ov: "build_overrides (map fst (AList.delete ''VS_CFG_ALLOW_CREATIVE_MODE'' env))
                 (AList.delete ''VS_CFG_ALLOW_CREATIVE_MODE'' env) [] = Inr ov"
    by (elim conjE)
  from all have dist: "distinct (map fst ov)"
    by (elim conjE)
  from all have sets0: "\<forall>k v. k \<noteq> ''VS_CFG_ALLOW_CREATIVE_MODE'' \<and> startswith k ''VS_CFG_'' \<and> map_of env k = Some v
            \<longrightarrow> (\<exists>key. map_of env_setting_map k = Some key \<and> map_of ov key = Some (PyStr v))"
    by (elim conjE)
  from all have other0: "\<forall>key. (\<forall>k\<in>fst ` set env. k \<noteq> ''VS_CFG_ALLOW_CREATIVE_MODE'' \<and> startswith k ''VS_CFG_''
                     \<longrightarrow> map_of env_setting_map k \<noteq> Some key)
            \<longrightarrow> map_of ov key = None"
    by (elim conjE)
  have "\<exists>d1. generate_serverconfig (PyDict d) env
          = Inr (PyDict (dict_update d1 ov), AList.delete ''VS_CFG_ALLOW_CREATIVE_MODE'' env)
      \<and> (\<forall>key. (map_of env ''VS_CFG_ALLOW_CREATIVE_MODE'' \<noteq> None \<longrightarrow> key \<noteq> ''WorldConfig'')
               \<longrightarrow> map_of d1 key = map_of d key)"
  proof (cases "map_of env ''VS_CFG_ALLOW_CREATIVE_MODE''")
    case None
    have "generate_serverconfig (PyDict d) env
          = Inr (PyDict (dict_update d ov), AList.delete ''VS_CFG_ALLOW_CREATIVE_MODE'' env)"
      using None ov by (rule generate_plain)
    then show ?thesis by (intro exI [of _ d]) simp
  next
    case (Some v)
    with assms(2) obtain w where w: "map_of d ''WorldConfig'' = Some (PyDict w)" by auto
    define d1 where "d1 = AList.update ''WorldConfig''
                     (PyDict (AList.update ''AllowCreativeMode''
                                (PyBool (lower v \<in> set [''1'', ''true'', ''yes''])) w)) d"
    have g: "generate_serverconfig (PyDict d) env
          = Inr (PyDict (dict_update d1 ov), AList.delete ''VS_CFG_ALLOW_CREATIVE_MODE'' env)"
      unfolding d1_def using Some w ov by (rule generate_creative)
    have "map_of d1 key = map_of d key" if "key \<noteq> ''WorldConfig''" for key
      unfolding d1_def using that by (simp add: update_conv')
    with g Some show ?thesis by (intro exI [of _ d1]) simp
  qed
  then obtain d1 where
    gen: "generate_serverconfig (PyDict d) env
          = Inr (PyDict (dict_update d1 ov), AList.delete ''VS_CFG_ALLOW_CREATIVE_MODE'' env)"
    and d1: "\<And>key. map_of env ''VS_CFG_ALLOW_CREATIVE_MODE'' \<noteq> None \<longrightarrow> key \<noteq> ''WorldConfig''
               \<Longrightarrow> map_of d1 key = map_of d key"
    by blast
  have look: "map_of (dict_update d1 ov) key = (case map_of ov key of None \<Rightarrow> map_of d1 key | Some x \<Rightarrow> Some x)"
    for key by (rule dict_update_lookup [OF dist])
  show ?thesis
  proof (intro exI [of _ "dict_update d1 ov"] conjI allI impI)
    show "generate_serverconfig (PyDict d) env
          = Inr (PyDict (dict_update d1 ov), AList.delete ''VS_CFG_ALLOW_CREATIVE_MODE'' env)"
      by (rule gen)
  next
    fix k v
    assume h: "k \<noteq> ''VS_CFG_ALLOW_CREATIVE_MODE'' \<and> startswith k ''VS_CFG_'' \<and> map_of env k = Some v"
    with sets0 have "\<exists>key. map_of env_setting_map k = Some key \<and> map_of ov key = Some (PyStr v)"
      by (elim allE [of _ k] allE [of _ v] impE)
    then obtain key where "map_of env_setting_map k = Some key" "map_of ov key = Some (PyStr v)"
      by (elim exE conjE)
    then have "map_of env_setting_map k = Some key \<and> map_of (dict_update d1 ov) key = Some (PyStr v)"
      by (simp only: look option.case simp_thms)
    then show "\<exists>key. map_of env_setting_map k = Some key \<and> map_of (dict_update d1 ov) key = Some (PyStr v)"
      by (rule exI)
  next
    fix key
    assume h: "(\<forall>k\<in>fst ` set env. k \<noteq> ''VS_CFG_ALLOW_CREATIVE_MODE'' \<and> startswith k ''VS_CFG_''
                     \<longrightarrow> map_of env_setting_map k \<noteq> Some key)
                 \<and> (map_of env ''VS_CFG_ALLOW_CREATIVE_MODE'' \<noteq> None \<longrightarrow> key \<noteq> ''WorldConfig'')"
    from h have "\<forall>k\<in>fst ` set env. k \<noteq> ''VS_CFG_ALLOW_CREATIVE_MODE'' \<and> startswith k ''VS_CFG_''
                     \<longrightarrow> map_of env_setting_map k \<noteq> Some key"
      by (rule conjunct1)
    with other0 have n: "map_of ov key = None"
      by (elim allE [of _ key] impE)
    from h have "map_of d1 key = map_of d key" by (intro d1) (rule conjunct2)
    with n show "map_of (dict_update d1 ov) key = map_of d key"
      by (simp only: look option.case)
  qed
qed

text \<open>The example of the claim: defaults \<open>{ServerName: "A", Port: 1234}\<close> and the one
  variable \<open>VS_CFG_SERVER_NAME=B\<close>.\<close>

theorem generate_serverconfig_merges_witness:
  "generate_serverconfig (PyDict [(''ServerName'', PyStr ''A''), (''Port'', PyInt 1234)])
       [(''HOME'', ''/root''), (''VS_CFG_SERVER_NAME'', ''B'')]
     = Inr (PyDict [(''ServerName'', PyStr ''B''), (''Port'', PyInt 1234)],
            [(''HOME'', ''/root''), (''VS_CFG_SERVER_NAME'', ''B'')])"
proof -
  have h1: "\<forall>k\<in>fst ` set [(''HOME'', ''/root''), (''VS_CFG_SERVER_NAME'', ''B'')].
      k \<noteq> ''VS_CFG_ALLOW_CREATIVE_MODE'' \<longrightarrow> startswith k ''VS_CFG_''
        \<longrightarrow> map_of env_setting_map k \<noteq> None"
    by (simp add: startswith_def env_setting_map_def)
  have h2: "map_of [(''HOME'', ''/root''), (''VS_CFG_SERVER_NAME'', ''B'')] ''VS_CFG_ALLOW_CREATIVE_MODE'' \<noteq> None
      \<longrightarrow> (\<exists>w. map_of [(''ServerName'', PyStr ''A''), (''Port'', PyInt 1234)] ''WorldConfig'' = Some (PyDict w))"
    by simp
  from generate_serverconfig_merges [OF h1 h2] obtain d' where
    g: "generate_serverconfig (PyDict [(''ServerName'', PyStr ''A''), (''Port'', PyInt 1234)])
          [(''HOME'', ''/root''), (''VS_CFG_SERVER_NAME'', ''B'')]
        = Inr (PyDict d', AList.delete ''VS_CFG_ALLOW_CREATIVE_MODE''
                 [(''HOME'', ''/root''), (''VS_CFG_SERVER_NAME'', ''B'')])"
    by blast
  have "generate_serverconfig (PyDict [(''ServerName'', PyStr ''A''), (''Port'', PyInt 1234)])
       [(''HOME'', ''/root''), (''VS_CFG_SERVER_NAME'', ''B'')]
     = Inr (PyDict [(''ServerName'', PyStr ''B''), (''Port'', PyInt 1234)],
            [(''HOME'', ''/root''), (''VS_CFG_SERVER_NAME'', ''B'')])"
    by (simp add: generate_serverconfig_def startswith_def env_setting_map_def dict_update_def)
  with g show ?thesis by simp
qed




lemma build_overrides_unknown:
  assumes "map_of env1 k = Some v" "startswith k ''VS_CFG_''" "map_of env_setting_map k = None"
  shows "\<exists>k'\<in>fst ` set env1. build_overrides (map fst env1) env1 acc = Inl (KeyError k')
           \<and> startswith k' ''VS_CFG_'' \<and> map_of env_setting_map k' = None"
proof -
  from assms(1) have "k \<in> set (map fst env1)" by (force dest: map_of_SomeD)
  moreover have "\<forall>k\<in>set (map fst env1). map_of env1 k \<noteq> None"
    by (simp add: map_of_eq_None_iff)
  ultimately have "\<exists>k'\<in>set (map fst env1). build_overrides (map fst env1) env1 acc = Inl (KeyError k')
           \<and> startswith k' ''VS_CFG_'' \<and> map_of env_setting_map k' = None"
    using assms(2,3) by (intro build_overrides_fail)
  then show ?thesis by simp
qed

lemma run_when_generate_raises:
  "generate_serverconfig (config self) env = Inl e \<Longrightarrow> fst (run json_dumps self args env fs) = 1"
  by (simp add: run_def Let_def split: prod.splits option.splits)

text \<open>
  Claim C9. Let the environment hold a variable whose name starts with \<open>VS_CFG_\<close> and is
  not a key of the translation table. Then \<open>generate_serverconfig\<close> raises, whatever the
  configuration, and \<open>run\<close> returns 1. Where the creative-mode step raises nothing
  (the variable is not set, or the configuration holds a mapping under \<open>WorldConfig\<close>),
  what is raised is the \<open>KeyError\<close> of the table lookup, for such a variable.
\<close>

theorem unknown_variable_raises:
  assumes "map_of env k = Some v" "startswith k ''VS_CFG_''" "map_of env_setting_map k = None"
  shows "(\<exists>e. generate_serverconfig (config self) env = Inl e)
      \<and> (map_of env ''VS_CFG_ALLOW_CREATIVE_MODE'' = None
           \<or> (\<exists>d w. config self = PyDict d \<and> map_of d ''WorldConfig'' = Some (PyDict w))
         \<longrightarrow> (\<exists>k'\<in>fst ` set env. generate_serverconfig (config self) env = Inl (KeyError k')
                 \<and> startswith k' ''VS_CFG_'' \<and> map_of env_setting_map k' = None))
      \<and> fst (run json_dumps self args env fs) = 1"
proof -
  have kc: "k \<noteq> ''VS_CFG_ALLOW_CREATIVE_MODE''"
    using assms(3) table_creative by auto
  have plain: "\<exists>k'\<in>fst ` set env. generate_serverconfig cfg env = Inl (KeyError k')
                 \<and> startswith k' ''VS_CFG_'' \<and> map_of env_setting_map k' = None"
    if "map_of env ''VS_CFG_ALLOW_CREATIVE_MODE'' = None" for cfg
  proof -
    from build_overrides_unknown [OF assms, of "[]"] obtain k' where
      "k' \<in> fst ` set env" "build_overrides (map fst env) env [] = Inl (KeyError k')"
      "startswith k' ''VS_CFG_''" "map_of env_setting_map k' = None"
      by (elim bexE conjE)
    moreover from this(2) that have "generate_serverconfig cfg env = Inl (KeyError k')"
      by (simp add: generate_serverconfig_def)
    ultimately show ?thesis by (intro bexI [of _ k'] conjI)
  qed
  have after: "\<exists>k'\<in>fst ` set env. generate_serverconfig cfg env = Inl (KeyError k')
                 \<and> startswith k' ''VS_CFG_'' \<and> map_of env_setting_map k' = None"
    if "map_of env ''VS_CFG_ALLOW_CREATIVE_MODE'' = Some vc"
      "set_creative_mode cfg (lower vc \<in> set [''1'', ''true'', ''yes'']) = Inr cfg'" for cfg vc cfg'
  proof -
    have "map_of (AList.delete ''VS_CFG_ALLOW_CREATIVE_MODE'' env) k = Some v"
      using assms(1) kc by simp
    from build_overrides_unknown [OF this assms(2,3), of "[]"] obtain k' where
      k': "k' \<in> fst ` set (AList.delete ''VS_CFG_ALLOW_CREATIVE_MODE'' env)"
      "build_overrides (map fst (AList.delete ''VS_CFG_ALLOW_CREATIVE_MODE'' env))
         (AList.delete ''VS_CFG_ALLOW_CREATIVE_MODE'' env) [] = Inl (KeyError k')"
      "startswith k' ''VS_CFG_''" "map_of env_setting_map k' = None"
      by (elim bexE conjE)
    from k'(1) have "k' \<in> fst ` set env"
      using dom_delete_subset [of "''VS_CFG_ALLOW_CREATIVE_MODE''" env] by blast
    moreover from k'(2) that have "generate_serverconfig cfg env = Inl (KeyError k')"
      by (simp add: generate_serverconfig_def)
    ultimately show ?thesis using k'(3,4) by (intro bexI [of _ k'] conjI)
  qed
  have 1: "\<exists>e. generate_serverconfig (config self) env = Inl e"
  proof (cases "map_of env ''VS_CFG_ALLOW_CREATIVE_MODE''")
    case None
    from plain [OF None, of "config self"] show ?thesis by blast
  next
    case (Some vc)
    show ?thesis
    proof (cases "set_creative_mode (config self) (lower vc \<in> set [''1'', ''true'', ''yes''])")
      case (Inl e)
      with Some have "generate_serverconfig (config self) env = Inl e"
        by (simp add: generate_serverconfig_def)
      then show ?thesis by (rule exI)
    next
      case (Inr cfg')
      from after [OF Some Inr] show ?thesis by blast
    qed
  qed
  have 2: "\<exists>k'\<in>fst ` set env. generate_serverconfig (config self) env = Inl (KeyError k')
                 \<and> startswith k' ''VS_CFG_'' \<and> map_of env_setting_map k' = None"
    if "map_of env ''VS_CFG_ALLOW_CREATIVE_MODE'' = None
           \<or> (\<exists>d w. config self = PyDict d \<and> map_of d ''WorldConfig'' = Some (PyDict w))"
  proof (cases "map_of env ''VS_CFG_ALLOW_CREATIVE_MODE''")
    case None
    then show ?thesis by (rule plain)
  next
    case (Some vc)
    with that obtain d w where "config self = PyDict d" "map_of d ''WorldConfig'' = Some (PyDict w)"
      by auto
    then have "\<exists>cfg'. set_creative_mode (config self) (lower vc \<in> set [''1'', ''true'', ''yes'']) = Inr cfg'"
      by (simp add: set_creative_mode_def)
    then obtain cfg' where "set_creative_mode (config self) (lower vc \<in> set [''1'', ''true'', ''yes'']) = Inr cfg'"
      by (elim exE)
    with Some show ?thesis by (rule after)
  qed
  from 1 obtain e where "generate_serverconfig (config self) env = Inl e" by (elim exE)
  then have 3: "fst (run json_dumps self args env fs) = 1" by (rule run_when_generate_raises)
  from 1 2 3 show ?thesis by (intro conjI impI)
qed

theorem unknown_variable_raises_witness:
  "generate_serverconfig (PyDict [(''ServerName'', PyStr ''A'')]) [(''VS_CFG_UNKNOWN'', ''x'')]
     = Inl (KeyError ''VS_CFG_UNKNOWN'')
   \<and> fst (run (\<lambda>cfg. ''{}'')
          \<lparr>config_json_path = None,
           default_config_yaml_path = Path True [''vintagestory'', ''server-config.yaml''],
           config = PyDict [(''ServerName'', PyStr ''A'')]\<rparr>
          [''generate-config.py''] [(''VS_CFG_UNKNOWN'', ''x'')]
          (\<lambda>p. if p = Path True [''vintagestory''] then Some Dir
               else if p = Path True [''vintagestory'', ''server-config.yaml'']
               then Some (File ''ServerName: A'') else None)) = 1"
proof -
  have h: "map_of [(''VS_CFG_UNKNOWN'', ''x'')] ''VS_CFG_UNKNOWN'' = Some ''x''"
    "startswith ''VS_CFG_UNKNOWN'' ''VS_CFG_''"
    "map_of env_setting_map ''VS_CFG_UNKNOWN'' = None"
    by (simp_all add: startswith_def env_setting_map_def)
  have e: "generate_serverconfig (PyDict [(''ServerName'', PyStr ''A'')]) [(''VS_CFG_UNKNOWN'', ''x'')]
     = Inl (KeyError ''VS_CFG_UNKNOWN'')"
    using h by (simp add: generate_serverconfig_def)
  show ?thesis
    using unknown_variable_raises [OF h, of
        "\<lparr>config_json_path = None,
           default_config_yaml_path = Path True [''vintagestory'', ''server-config.yaml''],
           config = PyDict [(''ServerName'', PyStr ''A'')]\<rparr>"
        "\<lambda>cfg. ''{}''" "[''generate-config.py'']"
        "\<lambda>p. if p = Path True [''vintagestory''] then Some Dir
               else if p = Path True [''vintagestory'', ''server-config.yaml'']
               then Some (File ''ServerName: A'') else None"] e
    by simp
qed

subsection \<open>\<open>load_config\<close>\<close>

lemma generate_serverconfig_None: "\<exists>e. generate_serverconfig PyNone env = Inl e"
  by (cases "build_overrides (map fst env) env []")
     (auto simp: generate_serverconfig_def set_creative_mode_def split: option.splits)

text \<open>
  Claim C2. Where the defaults file exists, \<open>load_config\<close> returns what \<open>yaml.safe_load\<close>
  gives for its text. For an empty document that library gives \<open>None\<close>, and so does
  \<open>load_config\<close>, not the empty mapping; \<open>generate_serverconfig\<close> then raises on it.
\<close>

theorem load_config_empty_document:
  assumes "lookup fs yaml_path = Some (File content)"
  shows "load_config yaml_safe_load yaml_path fs = yaml_safe_load content
      \<and> (yaml_safe_load content = Inr PyNone \<longrightarrow>
            load_config yaml_safe_load yaml_path fs = Inr PyNone
            \<and> load_config yaml_safe_load yaml_path fs \<noteq> Inr (PyDict [])
            \<and> (\<exists>e. generate_serverconfig PyNone env = Inl e))"
  using assms generate_serverconfig_None [of env]
  by (simp add: load_config_def exists_def read_text_def)

theorem load_config_empty_document_witness:
  "load_config (\<lambda>s. if strip s = [] then Inr PyNone else Inr (PyDict [(''ServerName'', PyStr s)]))
      (Path True [''vintagestory'', ''server-config.yaml''])
      (\<lambda>p. if p = Path True [''vintagestory''] then Some Dir
           else if p = Path True [''vintagestory'', ''server-config.yaml''] then Some (File [])
           else None)
    = Inr PyNone
   \<and> generate_serverconfig PyNone [] = Inl AttributeError"
proof -
  have l: "lookup (\<lambda>p. if p = Path True [''vintagestory''] then Some Dir
           else if p = Path True [''vintagestory'', ''server-config.yaml''] then Some (File [])
           else None) (Path True [''vintagestory'', ''server-config.yaml'']) = Some (File [])"
    by (simp add: lookup_def)
  have g: "generate_serverconfig PyNone [] = Inl AttributeError"
    by (simp add: generate_serverconfig_def)
  show ?thesis
    using load_config_empty_document [OF l,
        of "\<lambda>s. if strip s = [] then Inr PyNone else Inr (PyDict [(''ServerName'', PyStr s)])" "[]"] g
    by (simp add: strip_def)
qed

end
